theory Spec2Isabelle
  imports Main "HOL-Library.Char_ord" "HOL-Library.List_Lexorder"
begin

section \<open>Messages (src/src/chat-thread.tsx, type Message)\<close>

text \<open>
  The field \<open>id\<close> of a message is \<open>string | number\<close>. JavaScript's \<open>===\<close> holds between
  two such values exactly when they have the same type and the same value, which is the
  equality of this datatype. The field is called \<open>id_msg\<close> here, \<open>id\<close> being the identity
  function of HOL.
\<close>

datatype msg_id = IdStr string | IdNum int

record Message =
  id_msg :: msg_id
  created_at :: string
  sender_id :: string
  body :: string
  conversation_id :: string

section \<open>The state of one ChatThread component\<close>

text \<open>
  The five \<open>useState\<close> cells of the component. \<open>alerts\<close> records the calls of
  \<open>Alert.alert\<close>, oldest first: the only effect of the component besides its state and
  the backend calls.
\<close>

record thread =
  messages :: "Message list"
  messageText :: string
  loadingMessages :: bool
  sendingMessage :: bool
  refreshToken :: nat
  alerts :: "string list"

text \<open>The two route parameters the logic reads.\<close>

record route_params =
  userId :: string
  conversationId :: string

subsection \<open>String helpers\<close>

text \<open>
  \<open>String.prototype.trim\<close> removes white space and line terminators from both ends.
  Strings are lists of 8-bit characters here, so of the code points ECMAScript counts as
  white space those below 256 are modelled: TAB, LF, VT, FF, CR, SPACE and NBSP.
\<close>

definition is_space :: "char \<Rightarrow> bool" where
  "is_space c \<longleftrightarrow> (of_char c :: nat) \<in> {9, 10, 11, 12, 13, 32, 160}"

definition trim :: "string \<Rightarrow> string" where
  "trim s = rev (dropWhile is_space (rev (dropWhile is_space s)))"

text \<open>The decimal rendering of a non-negative integer, as a template literal prints it.\<close>

definition digit_char :: "nat \<Rightarrow> char" where
  "digit_char d = ''0123456789'' ! d"

fun show_nat :: "nat \<Rightarrow> string" where
  "show_nat n = (if n < 10 then [digit_char n] else show_nat (n div 10) @ [digit_char (n mod 10)])"

declare show_nat.simps [simp del]

subsection \<open>The push handler (chat-thread.tsx, lines 94-102)\<close>

text \<open>
  The updater passed to \<open>setMessages\<close> by the INSERT handler of the realtime channel:
  \<open>prev.some(message => message.id === newMessage.id) ? prev : [...prev, newMessage]\<close>.
  The specification calls it \<open>applyRemoteInsert\<close>.
\<close>

definition applyRemoteInsert :: "Message \<Rightarrow> Message list \<Rightarrow> Message list" where
  "applyRemoteInsert newMessage prev =
     (if list_ex (\<lambda>message. id_msg message = id_msg newMessage) prev then prev
      else prev @ [newMessage])"

subsection \<open>sendMessage (chat-thread.tsx, lines 111-154)\<close>

text \<open>
  \<open>sendMessage\<close> is an async function with one \<open>await\<close>. It is modelled as two steps:
  \<open>sendMessage_begin\<close> runs up to the \<open>await\<close> and returns, when it issues the insert,
  the variables its continuation keeps (\<open>optimisticId\<close> and \<open>trimmed\<close>);
  \<open>sendMessage_resume\<close> is the continuation, run on the state of the moment the reply
  arrives. \<open>Date.now()\<close> and \<open>new Date().toISOString()\<close> are the parameters \<open>now\<close> and
  \<open>isoNow\<close>.
\<close>

definition optimisticId :: "nat \<Rightarrow> msg_id" where
  "optimisticId now = IdStr (''temp-'' @ show_nat now)"

record send_request =
  req_optimisticId :: msg_id
  req_trimmed :: string

text \<open>The reply \<open>{ data, error }\<close> of \<open>insert(...).select(...).single()\<close>.\<close>

record insert_reply =
  send_data :: "Message option"
  send_error :: "string option"

definition sendMessage_begin ::
  "route_params \<Rightarrow> nat \<Rightarrow> string \<Rightarrow> thread \<Rightarrow> thread \<times> send_request option" where
  "sendMessage_begin p now isoNow s =
     (let trimmed = trim (messageText s) in
      if trimmed = [] then (s, None)
      else if sendingMessage s then (s, None)
      else
        let optimisticMessage =
              \<lparr>id_msg = optimisticId now, created_at = isoNow, sender_id = userId p,
               body = trimmed, conversation_id = conversationId p\<rparr>
        in (s\<lparr>messages := messages s @ [optimisticMessage],
               messageText := [],
               sendingMessage := True\<rparr>,
            Some \<lparr>req_optimisticId = optimisticId now, req_trimmed = trimmed\<rparr>))"

definition sendMessage_resume :: "send_request \<Rightarrow> insert_reply \<Rightarrow> thread \<Rightarrow> thread" where
  "sendMessage_resume req r s =
     (case send_error r of
        Some e \<Rightarrow>
          s\<lparr>messages := filter (\<lambda>message. id_msg message \<noteq> req_optimisticId req) (messages s),
            messageText := req_trimmed req,
            alerts := alerts s @ [e],
            sendingMessage := False\<rparr>
      | None \<Rightarrow>
          (case send_data r of
             Some d \<Rightarrow>
               s\<lparr>messages :=
                    map (\<lambda>message. if id_msg message = req_optimisticId req then d else message)
                      (messages s),
                 sendingMessage := False\<rparr>
           | None \<Rightarrow> s\<lparr>sendingMessage := False\<rparr>))"

subsection \<open>loadMessages (chat-thread.tsx, lines 51-79)\<close>

text \<open>
  The reply \<open>{ data, error }\<close> of the select. \<open>isMounted\<close> is the variable of the effect
  run that started the load; the cleanup of that effect run sets it to false.
\<close>

record select_reply =
  load_data :: "Message list option"
  load_error :: "string option"

definition loadMessages_begin :: "thread \<Rightarrow> thread" where
  "loadMessages_begin s = s\<lparr>loadingMessages := True\<rparr>"

definition loadMessages_resume :: "bool \<Rightarrow> select_reply \<Rightarrow> thread \<Rightarrow> thread" where
  "loadMessages_resume isMounted r s =
     (if \<not> isMounted then s
      else case load_error r of
        Some e \<Rightarrow> s\<lparr>alerts := alerts s @ [e], loadingMessages := False\<rparr>
      | None \<Rightarrow>
          s\<lparr>messages := (case load_data r of Some d \<Rightarrow> d | None \<Rightarrow> []),
            loadingMessages := False\<rparr>)"

section \<open>The life cycle of a component\<close>

text \<open>
  Besides its state a component owns what its effects and its pending async calls hold:
  \<^item> \<open>loads\<close>: for every \<open>loadMessages\<close> call that awaits its reply, the \<open>isMounted\<close>
    variable of the effect run that started it;
  \<^item> \<open>channel\<close>: whether the realtime channel of the subscription effect is open;
  \<^item> \<open>sends\<close>: for every \<open>sendMessage\<close> call of the mounted component that awaits its
    reply, the variables of its continuation;
  \<^item> \<open>mounted\<close>: whether React still has the component mounted;
  \<^item> \<open>late\<close>: the \<open>sendMessage\<close> continuations that were still waiting when the component
    was unmounted and have not run since.
  The JavaScript event loop runs one callback at a time, so an execution is a sequence of
  events, each handled to completion. Replies may arrive in any order: a reply names the
  pending call it answers by its position.
\<close>

record component =
  view :: thread
  loads :: "bool list"
  channel :: bool
  sends :: "send_request list"
  mounted :: bool
  late :: "send_request list"

datatype event =
    ChangeText string
  | PressSend nat string
  | InsertReply nat insert_reply
  | SelectReply nat select_reply
  | PushInsert Message
  | PullRefresh
  | Deactivate

text \<open>
  Mounting: the state cells take their initial values (the effect that empties the
  timeline for a new \<open>conversationId\<close> finds it empty), the load effect sets
  \<open>isMounted = true\<close> and calls \<open>loadMessages\<close>, and the subscription effect opens the
  channel unless \<open>conversationId\<close> is falsy (the empty string). A mounted component serves
  one conversation: the screen is only ever opened from the chat list.
\<close>

definition mount :: "route_params \<Rightarrow> component" where
  "mount p =
     \<lparr>view = loadMessages_begin
               \<lparr>messages = [], messageText = [], loadingMessages = False,
                sendingMessage = False, refreshToken = 0, alerts = []\<rparr>,
      loads = [True],
      channel = (conversationId p \<noteq> []),
      sends = [],
      mounted = True,
      late = []\<rparr>"

text \<open>
  React ignores the state setters of a component that is no longer mounted. A callback
  that runs after unmounting therefore leaves the five state cells as they were;
  \<open>Alert.alert\<close> is not a setter, and the alert is shown.
\<close>

definition setters_ignored :: "thread \<Rightarrow> thread \<Rightarrow> thread" where
  "setters_ignored old new = old\<lparr>alerts := alerts new\<rparr>"

text \<open>What a callback that computed the state \<open>new\<close> leaves behind.\<close>

definition commit :: "component \<Rightarrow> thread \<Rightarrow> thread" where
  "commit c new = (if mounted c then new else setters_ignored (view c) new)"

text \<open>
  \<^item> \<open>ChangeText\<close>: \<open>onChangeText={setMessageText}\<close>. (The input is not editable and the
    list cannot be pulled while the respective flag is set; the model allows these events
    at any time while the component is mounted, which only adds executions.)
  \<^item> \<open>PressSend now isoNow\<close>: the send button calls \<open>sendMessage\<close>.
  \<^item> \<open>InsertReply k r\<close>, \<open>SelectReply k r\<close>: the backend answers the \<open>k\<close>-th pending insert or
    select; the continuation runs and the call is no longer pending. After unmounting the
    continuation of an insert still runs to its end, since \<open>sendMessage\<close> does not test
    whether the component is mounted, but its setters are ignored.
  \<^item> \<open>PushInsert m\<close>: the realtime service delivers an INSERT event; the handler runs only
    while the channel is open.
  \<^item> \<open>PullRefresh\<close>: \<open>onRefresh\<close> increments \<open>refreshToken\<close>, so the load effect is cleaned up
    (its \<open>isMounted\<close> becomes false) and runs again.
  \<^item> \<open>Deactivate\<close>: the component unmounts; the cleanups of both effects run. From then on
    \<open>view\<close> and \<open>sends\<close> are the component as it was unmounted, the user events do
    nothing, and the inserts that still await their reply are in \<open>late\<close>.
\<close>

fun step :: "route_params \<Rightarrow> event \<Rightarrow> component \<Rightarrow> component" where
  "step p (ChangeText t) c =
     (if mounted c then c\<lparr>view := (view c)\<lparr>messageText := t\<rparr>\<rparr> else c)"
| "step p (PressSend now isoNow) c =
     (if mounted c
      then (case sendMessage_begin p now isoNow (view c) of
              (s', None) \<Rightarrow> c\<lparr>view := s'\<rparr>
            | (s', Some req) \<Rightarrow> c\<lparr>view := s', sends := sends c @ [req]\<rparr>)
      else c)"
| "step p (InsertReply k r) c =
     (if mounted c
      then (if k < length (sends c)
            then c\<lparr>view := sendMessage_resume (sends c ! k) r (view c),
                   sends := take k (sends c) @ drop (Suc k) (sends c)\<rparr>
            else c)
      else (if k < length (late c)
            then c\<lparr>view := commit c (sendMessage_resume (late c ! k) r (view c)),
                   late := take k (late c) @ drop (Suc k) (late c)\<rparr>
            else c))"
| "step p (SelectReply k r) c =
     (if k < length (loads c)
      then c\<lparr>view := commit c (loadMessages_resume (loads c ! k) r (view c)),
             loads := take k (loads c) @ drop (Suc k) (loads c)\<rparr>
      else c)"
| "step p (PushInsert m) c =
     (if channel c
      then c\<lparr>view := commit c
                       ((view c)\<lparr>messages := applyRemoteInsert m (messages (view c))\<rparr>)\<rparr>
      else c)"
| "step p PullRefresh c =
     (if mounted c
      then c\<lparr>view := loadMessages_begin
                       ((view c)\<lparr>refreshToken := refreshToken (view c) + 1\<rparr>),
             loads := map (\<lambda>_. False) (loads c) @ [True]\<rparr>
      else c)"
| "step p Deactivate c =
     c\<lparr>loads := map (\<lambda>_. False) (loads c),
       channel := False,
       mounted := False,
       late := (if mounted c then sends c else late c)\<rparr>"

fun run :: "route_params \<Rightarrow> event list \<Rightarrow> component \<Rightarrow> component" where
  "run p [] c = c"
| "run p (e # es) c = run p es (step p e c)"

subsection \<open>Backend replies assumed by some properties\<close>

text \<open>
  The optimistic id is the string \<open>temp-\<close> followed by digits. \<open>is_temp\<close> recognises the
  prefix; an entry of the timeline with such an id is called \<open>pending\<close>.
\<close>

fun is_temp :: "msg_id \<Rightarrow> bool" where
  "is_temp (IdStr s) = (take 5 s = ''temp-'')"
| "is_temp (IdNum n) = False"

definition pending :: "Message \<Rightarrow> bool" where
  "pending m = is_temp (id_msg m)"

text \<open>
  \<open>backend_ok\<close> holds of an event when what the backend delivers in it keeps to two
  conventions the component relies on without checking them: the id of a stored row never
  starts with \<open>temp-\<close>, and the reply to the insert carries an error or the inserted row
  (\<open>.single()\<close> reports an error when there is no row).
\<close>

fun backend_ok :: "event \<Rightarrow> bool" where
  "backend_ok (InsertReply k r) =
     (case send_error r of
        Some e \<Rightarrow> True
      | None \<Rightarrow> (case send_data r of Some d \<Rightarrow> \<not> is_temp (id_msg d) | None \<Rightarrow> False))"
| "backend_ok (SelectReply k r) =
     (case load_error r of
        Some e \<Rightarrow> True
      | None \<Rightarrow> (case load_data r of
                   Some d \<Rightarrow> list_all (\<lambda>m. \<not> is_temp (id_msg m)) d
                 | None \<Rightarrow> True))"
| "backend_ok (PushInsert m) = (\<not> is_temp (id_msg m))"
| "backend_ok (ChangeText t) = True"
| "backend_ok (PressSend now isoNow) = True"
| "backend_ok PullRefresh = True"
| "backend_ok Deactivate = True"

subsection \<open>The order the specification asks of the timeline\<close>

text \<open>
  The component never compares two messages. The order below is the one of the
  specification, "created-at ascending, ties broken by id": \<open>created_at\<close> is an ISO
  timestamp, compared as a string; the specification does not say how two ids compare, and
  here numbers come before strings, numbers by value and strings lexicographically.
\<close>

fun id_le :: "msg_id \<Rightarrow> msg_id \<Rightarrow> bool" where
  "id_le (IdNum a) (IdNum b) = (a \<le> b)"
| "id_le (IdNum a) (IdStr t) = True"
| "id_le (IdStr s) (IdNum b) = False"
| "id_le (IdStr s) (IdStr t) = (s \<le> t)"

definition spec_precedes :: "Message \<Rightarrow> Message \<Rightarrow> bool" where
  "spec_precedes a b \<longleftrightarrow>
     created_at a < created_at b \<or> (created_at a = created_at b \<and> id_le (id_msg a) (id_msg b))"

definition spec_sorted :: "Message list \<Rightarrow> bool" where
  "spec_sorted xs = sorted_wrt spec_precedes xs"

subsection \<open>The invariant of the send path\<close>

text \<open>
  The sending flag is set exactly while an insert awaits its reply, at most one insert
  does, a pending entry carries the id of that insert, and there is at most one pending
  entry.
\<close>

definition thread_inv :: "component \<Rightarrow> bool" where
  "thread_inv c \<longleftrightarrow>
     (sendingMessage (view c) \<longleftrightarrow> sends c \<noteq> [])
   \<and> length (sends c) \<le> 1
   \<and> (\<forall>m \<in> set (messages (view c)). pending m \<longrightarrow>
         (\<exists>req \<in> set (sends c). req_optimisticId req = id_msg m))
   \<and> length (filter pending (messages (view c))) \<le> 1"

text \<open>Every insert that awaits its reply carries an optimistic id.\<close>

definition tokens_temp :: "component \<Rightarrow> bool" where
  "tokens_temp c \<longleftrightarrow> list_all (\<lambda>req. is_temp (req_optimisticId req)) (sends c)"

text \<open>
  A component after deactivation: unmounted, the channel removed, and no load left whose
  \<open>isMounted\<close> is true.
\<close>

definition closed :: "component \<Rightarrow> bool" where
  "closed c \<longleftrightarrow> \<not> mounted c \<and> \<not> channel c \<and> list_all (\<lambda>isMounted. \<not> isMounted) (loads c)"

text \<open>The five state cells of two states agree.\<close>

definition same_cells :: "thread \<Rightarrow> thread \<Rightarrow> bool" where
  "same_cells s t \<longleftrightarrow>
     messages s = messages t \<and> messageText s = messageText t
   \<and> loadingMessages s = loadingMessages t \<and> sendingMessage s = sendingMessage t
   \<and> refreshToken s = refreshToken t"

subsection \<open>Values used in the examples\<close>

abbreviation demo_params :: route_params where
  "demo_params \<equiv> \<lparr>userId = ''u1'', conversationId = ''c1''\<rparr>"

abbreviation loaded :: "Message list \<Rightarrow> select_reply" where
  "loaded ms \<equiv> \<lparr>load_data = Some ms, load_error = None\<rparr>"

abbreviation confirmed :: "Message \<Rightarrow> insert_reply" where
  "confirmed m \<equiv> \<lparr>send_data = Some m, send_error = None\<rparr>"

abbreviation rejected :: "string \<Rightarrow> insert_reply" where
  "rejected e \<equiv> \<lparr>send_data = None, send_error = Some e\<rparr>"

abbreviation demo_pending :: Message where
  "demo_pending \<equiv>
     \<lparr>id_msg = IdStr ''temp-5'', created_at = ''2024-05-01T10:00:00.000Z'',
      sender_id = ''u1'', body = ''hi'', conversation_id = ''c1''\<rparr>"

abbreviation demo_m1 :: Message where
  "demo_m1 \<equiv>
     \<lparr>id_msg = IdStr ''m1'', created_at = ''2024-05-01T10:00:01.000Z'',
      sender_id = ''u1'', body = ''hi'', conversation_id = ''c1''\<rparr>"

abbreviation demo_m2 :: Message where
  "demo_m2 \<equiv>
     \<lparr>id_msg = IdStr ''m2'', created_at = ''2024-05-01T10:00:02.000Z'',
      sender_id = ''u2'', body = ''yo'', conversation_id = ''c1''\<rparr>"

section \<open>The conversation resolver (src/src/chat.tsx, openConversation)\<close>

text \<open>
  The backend is a remote service, not code of the repository. It is modelled by the two
  tables \<open>openConversation\<close> reads and writes: a select returns the matching rows in table
  order, an insert appends its rows. A row of \<open>conversation_members\<close> is the pair
  \<open>(conversation_id, user_id)\<close>. What one call cannot compute from the tables is given by
  \<open>resolve_replies\<close>: the errors of the four requests and the row the backend returns
  for the inserted conversation (its id).
\<close>

record backend =
  conversations :: "string list"
  conversation_members :: "(string \<times> string) list"

record resolve_replies =
  membershipError :: "string option"
  sharedError :: "string option"
  conversationError :: "string option"
  conversation :: "string option"
  memberInsertError :: "string option"

text \<open>What the call ends with: \<open>navigation.navigate('ChatThread', ...)\<close> or \<open>Alert.alert\<close>.\<close>

datatype outcome = Navigate string | Alerted string

definition select_memberships :: "backend \<Rightarrow> string \<Rightarrow> string list" where
  "select_memberships b user =
     map fst (filter (\<lambda>row. snd row = user) (conversation_members b))"

definition select_shared :: "backend \<Rightarrow> string \<Rightarrow> string list \<Rightarrow> string list" where
  "select_shared b profile conversationIds =
     take 1 (map fst (filter (\<lambda>row. snd row = profile \<and> fst row \<in> set conversationIds)
                        (conversation_members b)))"

text \<open>
  \<open>openConversation\<close> for the signed-in user \<open>user\<close> (the prop \<open>userId\<close>) and the tapped
  profile \<open>profile\<close> (\<open>profile.id\<close>). \<open>early\<close> is the result of the block that may return
  before the creation: an alert for a failed second select, the navigation to the first
  shared conversation, or nothing. A failed insert leaves the tables as they were; the
  two membership rows are one insert.
\<close>

definition openConversation ::
  "resolve_replies \<Rightarrow> string \<Rightarrow> string \<Rightarrow> backend \<Rightarrow> backend \<times> outcome" where
  "openConversation r user profile b =
     (case membershipError r of
        Some e \<Rightarrow> (b, Alerted e)
      | None \<Rightarrow>
          (let conversationIds = select_memberships b user;
               early =
                 (if conversationIds \<noteq> [] then
                    (case sharedError r of
                       Some e \<Rightarrow> Some (Alerted e)
                     | None \<Rightarrow>
                         (case select_shared b profile conversationIds of
                            [] \<Rightarrow> None
                          | c # rest \<Rightarrow> Some (Navigate c)))
                  else None)
           in (case early of
                 Some out \<Rightarrow> (b, out)
               | None \<Rightarrow>
                   (case conversationError r of
                      Some e \<Rightarrow> (b, Alerted e)
                    | None \<Rightarrow>
                        (case conversation r of
                           None \<Rightarrow> (b, Alerted ''Unable to start chat.'')
                         | Some cid \<Rightarrow>
                             (let b1 = b\<lparr>conversations := conversations b @ [cid]\<rparr> in
                              (case memberInsertError r of
                                 Some e \<Rightarrow> (b1, Alerted e)
                               | None \<Rightarrow>
                                   (b1\<lparr>conversation_members :=
                                         conversation_members b1 @ [(cid, user), (cid, profile)]\<rparr>,
                                    Navigate cid))))))))"

text \<open>
  The data model of the specification: a conversation has two memberships (fewer while it
  is an orphan of a failed creation), and at most one conversation has the membership set
  \<open>{A, B}\<close>.
\<close>

definition members_of :: "backend \<Rightarrow> string \<Rightarrow> string set" where
  "members_of b c = set (map snd (filter (\<lambda>row. fst row = c) (conversation_members b)))"

definition two_party :: "backend \<Rightarrow> bool" where
  "two_party b \<longleftrightarrow>
     (\<forall>c \<in> set (map fst (conversation_members b)). card (members_of b c) \<le> 2)"

definition unique_pair :: "backend \<Rightarrow> string \<Rightarrow> string \<Rightarrow> bool" where
  "unique_pair b A B \<longleftrightarrow>
     (\<forall>c \<in> set (map fst (conversation_members b)).
      \<forall>c' \<in> set (map fst (conversation_members b)).
        members_of b c = {A, B} \<and> members_of b c' = {A, B} \<longrightarrow> c = c')"

text \<open>The conversations both users are members of: what the two selects intersect.\<close>

definition shared_conversations :: "backend \<Rightarrow> string \<Rightarrow> string \<Rightarrow> string set" where
  "shared_conversations b A B =
     {c. (c, A) \<in> set (conversation_members b) \<and> (c, B) \<in> set (conversation_members b)}"

abbreviation replies_ok :: "string \<Rightarrow> resolve_replies" where
  "replies_ok cid \<equiv>
     \<lparr>membershipError = None, sharedError = None, conversationError = None,
      conversation = Some cid, memberInsertError = None\<rparr>"

section \<open>Properties of the thread operations\<close>

lemma trim_empty_iff: "trim s = [] \<longleftrightarrow> (\<forall>c \<in> set s. is_space c)"
proof -
  have "trim s = [] \<longleftrightarrow> (\<forall>c \<in> set (dropWhile is_space s). is_space c)"
    by (simp add: trim_def)
  also have "\<dots> \<longleftrightarrow> dropWhile is_space s = []"
  proof
    assume all: "\<forall>c \<in> set (dropWhile is_space s). is_space c"
    show "dropWhile is_space s = []"
    proof (rule ccontr)
      assume ne: "dropWhile is_space s \<noteq> []"
      then have "\<not> is_space (hd (dropWhile is_space s))"
        by (rule hd_dropWhile)
      moreover from ne have "hd (dropWhile is_space s) \<in> set (dropWhile is_space s)"
        by simp
      ultimately show False using all by blast
    qed
  next
    assume "dropWhile is_space s = []"
    then show "\<forall>c \<in> set (dropWhile is_space s). is_space c"
      by (simp only: list.set(1) ball_empty)
  qed
  also have "\<dots> \<longleftrightarrow> (\<forall>c \<in> set s. is_space c)"
    by simp
  finally show ?thesis .
qed

text \<open>
  C7. A compose text that is empty or consists of white space only is rejected by
  \<open>sendMessage\<close> before anything happens: no insert is issued (no request is returned),
  no optimistic message is appended, and the whole component state is unchanged.
\<close>

theorem C7_blank_send_is_noop:
  assumes "\<forall>c \<in> set (messageText s). is_space c"
  shows "sendMessage_begin p now isoNow s = (s, None)"
  using assms by (simp add: sendMessage_begin_def trim_empty_iff)

theorem C7_blank_send_is_noop_witness:
  "list_all is_space ''   ''
   \<and> sendMessage_begin demo_params 5 ''2024-05-01T10:00:00.000Z''
        \<lparr>messages = [demo_m2], messageText = ''   '', loadingMessages = False,
         sendingMessage = False, refreshToken = 0, alerts = []\<rparr>
      = (\<lparr>messages = [demo_m2], messageText = ''   '', loadingMessages = False,
          sendingMessage = False, refreshToken = 0, alerts = []\<rparr>, None)"
proof -
  have h: "\<forall>c \<in> set (messageText
        \<lparr>messages = [demo_m2], messageText = ''   '', loadingMessages = False,
         sendingMessage = False, refreshToken = 0, alerts = []\<rparr>). is_space c"
    by (simp add: is_space_def)
  have "list_all is_space ''   ''"
    by (simp add: is_space_def)
  with C7_blank_send_is_noop [OF h, of demo_params 5 "''2024-05-01T10:00:00.000Z''"]
  show ?thesis by (simp only: simp_thms)
qed

text \<open>
  C5. When the insert fails, the continuation of \<open>sendMessage\<close> removes every entry whose
  id is the correlation token, keeps all other entries as they are and in their order,
  and puts the body that was sent (the trimmed compose text) back into the compose input.
  This holds whatever happened to the state between the send and the failure.
\<close>

theorem C5_failure_withdraws_pending:
  assumes "sendMessage_begin p now isoNow s = (s1, Some req)"
    and "send_error r = Some e"
  shows "(\<forall>m \<in> set (messages (sendMessage_resume req r sr)). id_msg m \<noteq> optimisticId now)
       \<and> messages (sendMessage_resume req r sr) =
           filter (\<lambda>m. id_msg m \<noteq> optimisticId now) (messages sr)
       \<and> messageText (sendMessage_resume req r sr) = trim (messageText s)
       \<and> body (last (messages s1)) = trim (messageText s)
       \<and> id_msg (last (messages s1)) = optimisticId now"
proof -
  from assms(1) have req: "req = \<lparr>req_optimisticId = optimisticId now, req_trimmed = trim (messageText s)\<rparr>"
    and s1: "messages s1 = messages s @
        [\<lparr>id_msg = optimisticId now, created_at = isoNow, sender_id = userId p,
          body = trim (messageText s), conversation_id = conversationId p\<rparr>]"
    by (auto simp: sendMessage_begin_def Let_def split: if_splits)
  show ?thesis
    using assms(2) by (simp add: sendMessage_resume_def req s1)
qed

theorem C5_failure_withdraws_pending_witness:
  "messages (sendMessage_resume
       \<lparr>req_optimisticId = optimisticId 5, req_trimmed = ''hi''\<rparr>
       \<lparr>send_data = None, send_error = Some ''rejected''\<rparr>
       \<lparr>messages = [\<lparr>id_msg = IdStr ''m0'', created_at = ''t0'', sender_id = ''u2'',
                     body = ''yo'', conversation_id = ''c1''\<rparr>,
                    \<lparr>id_msg = optimisticId 5, created_at = ''t1'', sender_id = ''u1'',
                     body = ''hi'', conversation_id = ''c1''\<rparr>],
        messageText = [], loadingMessages = False, sendingMessage = True,
        refreshToken = 0, alerts = []\<rparr>)
   = filter (\<lambda>m. id_msg m \<noteq> optimisticId 5)
       [\<lparr>id_msg = IdStr ''m0'', created_at = ''t0'', sender_id = ''u2'',
         body = ''yo'', conversation_id = ''c1''\<rparr>,
        \<lparr>id_msg = optimisticId 5, created_at = ''t1'', sender_id = ''u1'',
         body = ''hi'', conversation_id = ''c1''\<rparr>]"
proof -
  have b: "sendMessage_begin \<lparr>userId = ''u1'', conversationId = ''c1''\<rparr> 5 ''t1''
       \<lparr>messages = [\<lparr>id_msg = IdStr ''m0'', created_at = ''t0'', sender_id = ''u2'',
                     body = ''yo'', conversation_id = ''c1''\<rparr>],
        messageText = ''hi'', loadingMessages = False, sendingMessage = False,
        refreshToken = 0, alerts = []\<rparr>
     = (\<lparr>messages = [\<lparr>id_msg = IdStr ''m0'', created_at = ''t0'', sender_id = ''u2'',
                     body = ''yo'', conversation_id = ''c1''\<rparr>,
                    \<lparr>id_msg = optimisticId 5, created_at = ''t1'', sender_id = ''u1'',
                     body = ''hi'', conversation_id = ''c1''\<rparr>],
        messageText = [], loadingMessages = False, sendingMessage = True,
        refreshToken = 0, alerts = []\<rparr>,
        Some \<lparr>req_optimisticId = optimisticId 5, req_trimmed = ''hi''\<rparr>)"
    by (simp add: sendMessage_begin_def trim_def is_space_def Let_def)
  have e: "send_error \<lparr>send_data = None, send_error = Some ''rejected''\<rparr> = Some ''rejected''"
    by simp
  from C5_failure_withdraws_pending [OF b e, where sr =
       "\<lparr>messages = [\<lparr>id_msg = IdStr ''m0'', created_at = ''t0'', sender_id = ''u2'',
                     body = ''yo'', conversation_id = ''c1''\<rparr>,
                    \<lparr>id_msg = optimisticId 5, created_at = ''t1'', sender_id = ''u1'',
                     body = ''hi'', conversation_id = ''c1''\<rparr>],
        messageText = [], loadingMessages = False, sendingMessage = True,
        refreshToken = 0, alerts = []\<rparr>", THEN conjunct2, THEN conjunct1]
  show ?thesis by simp
qed

text \<open>
  C10. \<open>loadMessages\<close> does not touch the timeline when the select fails: starting the
  load only sets the loading flag, and the continuation of a failed load reports the
  error and clears the flag. This is the same for the first load and for a refresh: in
  the life cycle, neither \<open>PullRefresh\<close> nor the reply of a failed select changes the
  timeline.
\<close>

theorem C10_failed_load_keeps_timeline:
  assumes "load_error r = Some e"
  shows "messages (loadMessages_begin s) = messages s
       \<and> messages (loadMessages_resume isMounted r s) = messages s
       \<and> alerts (loadMessages_resume True r s) = alerts s @ [e]
       \<and> messages (view (step p PullRefresh c)) = messages (view c)
       \<and> messages (view (step p (SelectReply k r) c)) = messages (view c)"
  using assms
  by (simp add: loadMessages_begin_def loadMessages_resume_def commit_def setters_ignored_def)

theorem C10_failed_load_keeps_timeline_witness:
  "messages (loadMessages_resume True \<lparr>load_data = None, load_error = Some ''offline''\<rparr>
       \<lparr>messages = [demo_m2], messageText = [], loadingMessages = True,
        sendingMessage = False, refreshToken = 1, alerts = []\<rparr>)
   = [demo_m2]"
proof -
  have e: "load_error \<lparr>load_data = None, load_error = Some ''offline''\<rparr> = Some ''offline''"
    by simp
  from C10_failed_load_keeps_timeline [OF e, where isMounted = True and s =
       "\<lparr>messages = [demo_m2], messageText = [], loadingMessages = True,
        sendingMessage = False, refreshToken = 1, alerts = []\<rparr>",
       THEN conjunct2, THEN conjunct1]
  show ?thesis by simp
qed

section \<open>The race between the push channel and the send reply\<close>

lemma optimisticId_5: "optimisticId 5 = IdStr ''temp-5''"
  by (simp add: optimisticId_def show_nat.simps digit_char_def)

text \<open>
  When the reply of the insert arrives first, the push handler finds the confirmed row in
  the timeline and leaves the timeline as it is.
\<close>

lemma replaced_entry_present:
  "list_ex (\<lambda>x. id_msg x = t) prev \<Longrightarrow>
   list_ex (\<lambda>y. id_msg y = id_msg d)
     (map (\<lambda>message. if id_msg message = t then d else message) prev)"
  by (induction prev) auto

lemma push_after_confirm_is_noop:
  assumes "list_ex (\<lambda>x. id_msg x = t) prev"
  shows "applyRemoteInsert d (map (\<lambda>message. if id_msg message = t then d else message) prev)
       = map (\<lambda>message. if id_msg message = t then d else message) prev"
  using replaced_entry_present [OF assms, of d] by (simp add: applyRemoteInsert_def)

text \<open>
  C1. The claim asks for exactly one entry with the id of the confirmed message in either
  order of push delivery and send reply. In the order push first, reply second, the
  component ends with two: the continuation of \<open>sendMessage\<close> replaces the pending entry by
  the confirmed row without looking for that row in the timeline, where the push handler
  has already appended it. The run below is: the initial load returns no messages, the
  user types \<open>hi\<close> and presses send at time 5, the push channel delivers the stored row
  \<open>m1\<close>, the insert replies with the same row.
\<close>

theorem C1_push_then_reply_duplicates:
  "messages (view (run demo_params
      [SelectReply 0 (loaded []), ChangeText ''hi'',
       PressSend 5 ''2024-05-01T10:00:00.000Z'',
       PushInsert demo_m1, InsertReply 0 (confirmed demo_m1)]
      (mount demo_params)))
   = [demo_m1, demo_m1]"
  by code_simp

section \<open>The order of the timeline\<close>

text \<open>
  C2, as stated, fails: the push handler appends. After the initial load returned \<open>m2\<close>
  (created at 10:00:02), the push channel delivers \<open>m1\<close> (created at 10:00:01); the
  timeline is then \<open>[m2, m1]\<close>, which is not ascending by created-at.
\<close>

theorem C2_counterexample:
  "messages (view (run demo_params
      [SelectReply 0 (loaded [demo_m2]), PushInsert demo_m1] (mount demo_params)))
     = [demo_m2, demo_m1]
   \<and> \<not> spec_sorted [demo_m2, demo_m1]"
proof
  show "messages (view (run demo_params
      [SelectReply 0 (loaded [demo_m2]), PushInsert demo_m1] (mount demo_params)))
     = [demo_m2, demo_m1]"
    by code_simp
  show "\<not> spec_sorted [demo_m2, demo_m1]"
    by (simp add: spec_sorted_def spec_precedes_def)
qed

text \<open>
  C2, amended. The timeline is kept in arrival order; nothing in the component sorts.
  The push handler appends the incoming message at the end when no entry has its id, and
  leaves the timeline unchanged otherwise; so its result is in the order of the
  specification exactly when the timeline was and the incoming message is a duplicate or
  comes after every entry. A successful load installs the batch as the backend returned
  it, a send appends the optimistic message at the end, and the reply of the insert
  replaces or removes entries where they stand.
\<close>

theorem C2_push_appends:
  "applyRemoteInsert m prev = (if \<exists>x \<in> set prev. id_msg x = id_msg m then prev else prev @ [m])
   \<and> (spec_sorted (applyRemoteInsert m prev) \<longleftrightarrow>
        spec_sorted prev \<and>
        ((\<exists>x \<in> set prev. id_msg x = id_msg m) \<or> (\<forall>x \<in> set prev. spec_precedes x m)))
   \<and> messages (loadMessages_resume True (loaded batch) s) = batch
   \<and> messages (fst (sendMessage_begin p now isoNow s)) =
        (if trim (messageText s) = [] \<or> sendingMessage s then messages s
         else messages s @
          [\<lparr>id_msg = optimisticId now, created_at = isoNow, sender_id = userId p,
            body = trim (messageText s), conversation_id = conversationId p\<rparr>])
   \<and> messages (sendMessage_resume req (confirmed d) s) =
        map (\<lambda>x. if id_msg x = req_optimisticId req then d else x) (messages s)
   \<and> messages (sendMessage_resume req (rejected e) s) =
        filter (\<lambda>x. id_msg x \<noteq> req_optimisticId req) (messages s)"
proof -
  have "applyRemoteInsert m prev =
      (if \<exists>x \<in> set prev. id_msg x = id_msg m then prev else prev @ [m])"
    by (simp add: applyRemoteInsert_def list_ex_iff)
  moreover have "spec_sorted (applyRemoteInsert m prev) \<longleftrightarrow>
        spec_sorted prev \<and>
        ((\<exists>x \<in> set prev. id_msg x = id_msg m) \<or> (\<forall>x \<in> set prev. spec_precedes x m))"
    by (auto simp: applyRemoteInsert_def list_ex_iff spec_sorted_def sorted_wrt_append)
  moreover have "messages (loadMessages_resume True (loaded batch) s) = batch"
    by (simp add: loadMessages_resume_def)
  moreover have "messages (fst (sendMessage_begin p now isoNow s)) =
        (if trim (messageText s) = [] \<or> sendingMessage s then messages s
         else messages s @
          [\<lparr>id_msg = optimisticId now, created_at = isoNow, sender_id = userId p,
            body = trim (messageText s), conversation_id = conversationId p\<rparr>])"
    by (simp add: sendMessage_begin_def Let_def)
  moreover have "messages (sendMessage_resume req (confirmed d) s) =
        map (\<lambda>x. if id_msg x = req_optimisticId req then d else x) (messages s)"
    by (simp add: sendMessage_resume_def)
  moreover have "messages (sendMessage_resume req (rejected e) s) =
        filter (\<lambda>x. id_msg x \<noteq> req_optimisticId req) (messages s)"
    by (simp add: sendMessage_resume_def)
  ultimately show ?thesis by blast
qed

theorem C2_push_appends_witness:
  "applyRemoteInsert demo_m2 [demo_m1] = [demo_m1, demo_m2]
   \<and> spec_sorted (applyRemoteInsert demo_m2 [demo_m1])"
proof -
  have pre: "spec_sorted [demo_m1] \<and>
        ((\<exists>x \<in> set [demo_m1]. id_msg x = id_msg demo_m2) \<or>
         (\<forall>x \<in> set [demo_m1]. spec_precedes x demo_m2))"
    by (simp add: spec_sorted_def spec_precedes_def)
  from C2_push_appends [of demo_m2 "[demo_m1]", THEN conjunct2, THEN conjunct1] pre
  have "spec_sorted (applyRemoteInsert demo_m2 [demo_m1])"
    by blast
  moreover have "applyRemoteInsert demo_m2 [demo_m1] = [demo_m1, demo_m2]"
    by (simp add: applyRemoteInsert_def)
  ultimately show ?thesis by blast
qed

section \<open>Invariants of the life cycle\<close>

lemma is_temp_optimisticId: "is_temp (optimisticId now)"
  by (simp add: optimisticId_def)

lemma mount_inv: "thread_inv (mount p)"
  by (simp add: thread_inv_def mount_def loadMessages_begin_def)

lemma no_pending_filter: "(\<forall>m \<in> set xs. \<not> pending m) \<Longrightarrow> filter pending xs = []"
  by (induction xs) auto

lemma inv_unmounted: "\<not> mounted c \<Longrightarrow> thread_inv c \<Longrightarrow> thread_inv (step p e c)"
  by (cases e) (simp_all add: thread_inv_def commit_def setters_ignored_def)

lemma inv_ChangeText: "thread_inv c \<Longrightarrow> thread_inv (step p (ChangeText t) c)"
  by (simp add: thread_inv_def)

lemma inv_PressSend: "thread_inv c \<Longrightarrow> thread_inv (step p (PressSend now isoNow) c)"
proof (cases "\<not> mounted c \<or> trim (messageText (view c)) = [] \<or> sendingMessage (view c)")
  case True
  assume "thread_inv c"
  with True show ?thesis
    by (auto simp: sendMessage_begin_def Let_def)
next
  case False
  assume i: "thread_inv c"
  with False have nil: "sends c = []" by (simp add: thread_inv_def)
  with i have np: "\<forall>m \<in> set (messages (view c)). \<not> pending m"
    by (auto simp: thread_inv_def)
  then have "filter pending (messages (view c)) = []" by (rule no_pending_filter)
  with False nil np show ?thesis
    by (simp add: thread_inv_def sendMessage_begin_def Let_def pending_def is_temp_optimisticId)
qed

lemma inv_InsertReply:
  assumes "thread_inv c" and "backend_ok (InsertReply k r)" and "mounted c"
  shows "thread_inv (step p (InsertReply k r) c)"
proof (cases "k < length (sends c)")
  case False
  with assms show ?thesis by simp
next
  case True
  with assms(1) obtain req where s: "sends c = [req]" and k: "k = 0"
    by (cases "sends c") (auto simp: thread_inv_def)
  from assms(1) s
  have tok: "\<forall>m \<in> set (messages (view c)). pending m \<longrightarrow> id_msg m = req_optimisticId req"
    by (auto simp: thread_inv_def)
  have np: "\<forall>m \<in> set (messages (sendMessage_resume req r (view c))). \<not> pending m"
    using assms(2) tok
    by (auto simp: sendMessage_resume_def pending_def split: option.splits)
  then have "filter pending (messages (sendMessage_resume req r (view c))) = []"
    by (rule no_pending_filter)
  moreover have "\<not> sendingMessage (sendMessage_resume req r (view c))"
    using assms(2) by (auto simp: sendMessage_resume_def split: option.splits)
  ultimately show ?thesis
    using s k np assms(3) by (simp add: thread_inv_def)
qed

lemma inv_SelectReply:
  assumes "thread_inv c" and "backend_ok (SelectReply k r)" and "mounted c"
  shows "thread_inv (step p (SelectReply k r) c)"
proof (cases "k < length (loads c) \<and> loads c ! k \<and> load_error r = None")
  case False
  with assms(1,3) show ?thesis
    by (auto simp: thread_inv_def commit_def loadMessages_resume_def split: option.splits)
next
  case True
  with assms(2)
  have np: "\<forall>m \<in> set (messages (loadMessages_resume (loads c ! k) r (view c))). \<not> pending m"
    by (auto simp: loadMessages_resume_def pending_def list_all_iff split: option.splits)
  then have "filter pending (messages (loadMessages_resume (loads c ! k) r (view c))) = []"
    by (rule no_pending_filter)
  moreover have "sendingMessage (loadMessages_resume (loads c ! k) r (view c))
               = sendingMessage (view c)"
    by (simp add: loadMessages_resume_def split: option.splits)
  ultimately show ?thesis
    using assms(1,3) True np by (simp add: thread_inv_def commit_def)
qed

lemma inv_PushInsert:
  assumes "thread_inv c" and "backend_ok (PushInsert m)" and "mounted c"
  shows "thread_inv (step p (PushInsert m) c)"
  using assms by (auto simp: thread_inv_def commit_def applyRemoteInsert_def pending_def)

lemma inv_PullRefresh: "thread_inv c \<Longrightarrow> thread_inv (step p PullRefresh c)"
  by (simp add: thread_inv_def loadMessages_begin_def)

lemma inv_Deactivate: "thread_inv c \<Longrightarrow> thread_inv (step p Deactivate c)"
  by (simp add: thread_inv_def)

lemma step_inv: "thread_inv c \<Longrightarrow> backend_ok e \<Longrightarrow> thread_inv (step p e c)"
proof (cases "mounted c")
  case False
  assume "thread_inv c"
  with False show ?thesis by (rule inv_unmounted)
next
  case True
  assume "thread_inv c" and "backend_ok e"
  with True show ?thesis
    by (cases e)
      (simp_all only: inv_ChangeText inv_PressSend inv_InsertReply inv_SelectReply
         inv_PushInsert inv_PullRefresh inv_Deactivate)
qed

lemma run_inv: "thread_inv c \<Longrightarrow> \<forall>e \<in> set es. backend_ok e \<Longrightarrow> thread_inv (run p es c)"
  by (induction es arbitrary: c) (simp_all add: step_inv)

lemma step_tokens: "tokens_temp c \<Longrightarrow> tokens_temp (step p e c)"
proof (cases e)
  case (PressSend now isoNow)
  assume "tokens_temp c"
  with PressSend show ?thesis
    by (auto simp: tokens_temp_def sendMessage_begin_def Let_def is_temp_optimisticId)
next
  case (InsertReply k r)
  assume "tokens_temp c"
  with InsertReply show ?thesis
    by (auto simp: tokens_temp_def list_all_iff dest: in_set_takeD in_set_dropD)
qed (simp_all add: tokens_temp_def)

lemma run_tokens: "tokens_temp c \<Longrightarrow> tokens_temp (run p es c)"
  by (induction es arbitrary: c) (simp_all add: step_tokens)

lemma mount_tokens: "tokens_temp (mount p)"
  by (simp add: tokens_temp_def mount_def)

section \<open>Pending and confirmed identities\<close>

text \<open>
  C6. Let the backend keep to \<open>backend_ok\<close>: the ids of stored rows are assigned by the
  database (the insert sends none) and never start with \<open>temp-\<close>. Then in every state the
  component reaches from mounting
  \<^item> the id of every insert that awaits its reply differs from the id of every confirmed
    entry of the timeline (an entry that is not pending);
  \<^item> every entry with an id of the optimistic form is the entry of an insert that awaits
    its reply;
  \<^item> an optimistic id has that form, so it differs from the id of any confirmed message
    \<open>x\<close>; and
  \<^item> the presence check of the push handler for such an \<open>x\<close> is decided by the confirmed
    entries alone: a pending entry never matches.
\<close>

theorem C6_identities_disjoint:
  assumes "\<forall>e \<in> set es. backend_ok e" and "\<not> is_temp (id_msg x)"
  shows "(\<forall>req \<in> set (sends (run p es (mount p))).
          \<forall>m \<in> set (messages (view (run p es (mount p)))).
            \<not> pending m \<longrightarrow> id_msg m \<noteq> req_optimisticId req)
       \<and> (\<forall>m \<in> set (messages (view (run p es (mount p)))).
            pending m \<longrightarrow>
              (\<exists>req \<in> set (sends (run p es (mount p))). req_optimisticId req = id_msg m))
       \<and> is_temp (optimisticId now)
       \<and> optimisticId now \<noteq> id_msg x
       \<and> applyRemoteInsert x (messages (view (run p es (mount p)))) =
           (if list_ex (\<lambda>m. \<not> pending m \<and> id_msg m = id_msg x)
                 (messages (view (run p es (mount p))))
            then messages (view (run p es (mount p)))
            else messages (view (run p es (mount p))) @ [x])"
proof -
  have t: "tokens_temp (run p es (mount p))"
    using mount_tokens by (rule run_tokens)
  have i: "thread_inv (run p es (mount p))"
    using mount_inv assms(1) by (rule run_inv)
  have a: "\<forall>req \<in> set (sends (run p es (mount p))).
          \<forall>m \<in> set (messages (view (run p es (mount p)))).
            \<not> pending m \<longrightarrow> id_msg m \<noteq> req_optimisticId req"
    using t by (auto simp: tokens_temp_def list_all_iff pending_def)
  have b: "\<forall>m \<in> set (messages (view (run p es (mount p)))).
            pending m \<longrightarrow>
              (\<exists>req \<in> set (sends (run p es (mount p))). req_optimisticId req = id_msg m)"
    using i by (simp add: thread_inv_def)
  have c: "optimisticId now \<noteq> id_msg x"
    using assms(2) is_temp_optimisticId [of now] by auto
  have "\<not> pending m" if "id_msg m = id_msg x" for m
    using assms(2) that by (simp add: pending_def)
  then have "list_ex (\<lambda>m. id_msg m = id_msg x) (messages (view (run p es (mount p))))
      = list_ex (\<lambda>m. \<not> pending m \<and> id_msg m = id_msg x)
          (messages (view (run p es (mount p))))"
    unfolding list_ex_iff by blast
  then have d: "applyRemoteInsert x (messages (view (run p es (mount p)))) =
           (if list_ex (\<lambda>m. \<not> pending m \<and> id_msg m = id_msg x)
                 (messages (view (run p es (mount p))))
            then messages (view (run p es (mount p)))
            else messages (view (run p es (mount p))) @ [x])"
    by (simp add: applyRemoteInsert_def)
  from a b c d show ?thesis
    using is_temp_optimisticId [of now] by blast
qed

theorem C6_identities_disjoint_witness:
  "list_all backend_ok
     [SelectReply 0 (loaded [demo_m2]), ChangeText ''hi'',
      PressSend 5 ''2024-05-01T10:00:00.000Z'']
   \<and> \<not> is_temp (id_msg demo_m1)
   \<and> messages (view (run demo_params
        [SelectReply 0 (loaded [demo_m2]), ChangeText ''hi'',
         PressSend 5 ''2024-05-01T10:00:00.000Z''] (mount demo_params)))
      = [demo_m2, demo_pending]
   \<and> optimisticId 5 \<noteq> id_msg demo_m1
   \<and> applyRemoteInsert demo_m1 [demo_m2, demo_pending] = [demo_m2, demo_pending, demo_m1]"
proof -
  have l: "list_all backend_ok
     [SelectReply 0 (loaded [demo_m2]), ChangeText ''hi'',
      PressSend 5 ''2024-05-01T10:00:00.000Z'']"
    by simp
  then have h: "\<forall>e \<in> set [SelectReply 0 (loaded [demo_m2]), ChangeText ''hi'',
               PressSend 5 ''2024-05-01T10:00:00.000Z'']. backend_ok e"
    by (simp only: list_all_iff)
  have x: "\<not> is_temp (id_msg demo_m1)" by simp
  have v: "messages (view (run demo_params
        [SelectReply 0 (loaded [demo_m2]), ChangeText ''hi'',
         PressSend 5 ''2024-05-01T10:00:00.000Z''] (mount demo_params)))
      = [demo_m2, demo_pending]"
    by code_simp
  from C6_identities_disjoint [OF h x, of demo_params 5]
  have "optimisticId 5 \<noteq> id_msg demo_m1"
    and "applyRemoteInsert demo_m1 [demo_m2, demo_pending]
           = [demo_m2, demo_pending, demo_m1]"
    unfolding v by (simp_all add: pending_def)
  with l x v show ?thesis by (simp only: simp_thms)
qed

section \<open>After deactivation\<close>

text \<open>
  The cleanups of the two effects discard by themselves what arrives later: the push
  handler no longer runs, and the continuation of a load returns at once.
\<close>

lemma closed_push_discarded:
  "step p (PushInsert m) (step p Deactivate c) = step p Deactivate c"
  by simp

lemma closed_load_returns:
  "k < length (loads c) \<Longrightarrow>
   loadMessages_resume (loads (step p Deactivate c) ! k) r s = s"
  by (simp add: loadMessages_resume_def)

lemma same_cells_refl: "same_cells s s"
  by (simp add: same_cells_def)

lemma same_cells_trans: "same_cells s t \<Longrightarrow> same_cells t u \<Longrightarrow> same_cells s u"
  by (simp add: same_cells_def)

lemma commit_unmounted: "\<not> mounted c \<Longrightarrow> same_cells (commit c new) (view c)"
  by (simp add: commit_def setters_ignored_def same_cells_def)

lemma closed_Deactivate: "closed (step p Deactivate c)"
  by (simp add: closed_def list_all_iff)

lemma closed_step: "closed c \<Longrightarrow> closed (step p e c)"
  by (cases e) (auto simp: closed_def list_all_iff dest: in_set_takeD in_set_dropD)

lemma closed_step_cells: "closed c \<Longrightarrow> same_cells (view (step p e c)) (view c)"
  by (cases e) (simp_all add: closed_def commit_unmounted same_cells_refl)

lemma closed_run:
  "closed c \<Longrightarrow> closed (run p es c) \<and> same_cells (view (run p es c)) (view c)"
proof (induction es arbitrary: c)
  case Nil
  then show ?case by (simp add: same_cells_refl)
next
  case (Cons e es)
  from Cons.prems have c1: "closed (step p e c)" by (rule closed_step)
  from Cons.prems have s1: "same_cells (view (step p e c)) (view c)"
    by (rule closed_step_cells)
  from Cons.IH [OF c1] s1 show ?case
    by (auto intro: same_cells_trans)
qed

text \<open>
  C8. Once the component is deactivated it stays so, whatever arrives: the channel is
  removed, no load is left whose \<open>isMounted\<close> is true, and after any sequence of events
  the timeline and the other state cells are what they were at deactivation. The push
  handler does not run, the continuation of a load returns at once, and the continuation
  of an insert runs with its setters ignored; of a failed insert only the alert is shown.
\<close>

theorem C8_closed_keeps_timeline:
  "closed (run p es (step p Deactivate c))
   \<and> same_cells (view (run p es (step p Deactivate c))) (view c)
   \<and> messages (view (run p es (step p Deactivate c))) = messages (view c)"
proof -
  have "closed (run p es (step p Deactivate c))
      \<and> same_cells (view (run p es (step p Deactivate c))) (view (step p Deactivate c))"
    using closed_Deactivate by (rule closed_run)
  then have "closed (run p es (step p Deactivate c))
      \<and> same_cells (view (run p es (step p Deactivate c))) (view c)"
    by simp
  then show ?thesis by (simp add: same_cells_def)
qed

theorem C8_closed_keeps_timeline_witness:
  "view (run demo_params
      [SelectReply 0 (loaded []), ChangeText ''hi'',
       PressSend 5 ''2024-05-01T10:00:00.000Z''] (mount demo_params))
   = \<lparr>messages = [demo_pending], messageText = [], loadingMessages = False,
      sendingMessage = True, refreshToken = 0, alerts = []\<rparr>
   \<and> messages (view (run demo_params
      [InsertReply 0 (rejected ''offline''), PushInsert demo_m2]
      (step demo_params Deactivate
        (run demo_params
          [SelectReply 0 (loaded []), ChangeText ''hi'',
           PressSend 5 ''2024-05-01T10:00:00.000Z''] (mount demo_params)))))
     = [demo_pending]
   \<and> view (run demo_params
      [SelectReply 0 (loaded []), ChangeText ''hi'',
       PressSend 5 ''2024-05-01T10:00:00.000Z'', Deactivate,
       InsertReply 0 (rejected ''offline''), PushInsert demo_m2] (mount demo_params))
   = \<lparr>messages = [demo_pending], messageText = [], loadingMessages = False,
      sendingMessage = True, refreshToken = 0, alerts = [''offline'']\<rparr>"
proof -
  have v: "view (run demo_params
      [SelectReply 0 (loaded []), ChangeText ''hi'',
       PressSend 5 ''2024-05-01T10:00:00.000Z''] (mount demo_params))
   = \<lparr>messages = [demo_pending], messageText = [], loadingMessages = False,
      sendingMessage = True, refreshToken = 0, alerts = []\<rparr>"
    by code_simp
  have w: "view (run demo_params
      [SelectReply 0 (loaded []), ChangeText ''hi'',
       PressSend 5 ''2024-05-01T10:00:00.000Z'', Deactivate,
       InsertReply 0 (rejected ''offline''), PushInsert demo_m2] (mount demo_params))
   = \<lparr>messages = [demo_pending], messageText = [], loadingMessages = False,
      sendingMessage = True, refreshToken = 0, alerts = [''offline'']\<rparr>"
    by code_simp
  from C8_closed_keeps_timeline
    [of demo_params "[InsertReply 0 (rejected ''offline''), PushInsert demo_m2]"
      "run demo_params
          [SelectReply 0 (loaded []), ChangeText ''hi'',
           PressSend 5 ''2024-05-01T10:00:00.000Z''] (mount demo_params)",
      THEN conjunct2, THEN conjunct2]
  have "messages (view (run demo_params
      [InsertReply 0 (rejected ''offline''), PushInsert demo_m2]
      (step demo_params Deactivate
        (run demo_params
          [SelectReply 0 (loaded []), ChangeText ''hi'',
           PressSend 5 ''2024-05-01T10:00:00.000Z''] (mount demo_params)))))
     = [demo_pending]"
    unfolding v by simp
  with v w show ?thesis by (simp only: simp_thms)
qed

section \<open>At most one pending message\<close>

text \<open>
  C9. In every state the component reaches from mounting, through any sequence of events
  in which the backend keeps to \<open>backend_ok\<close>, the timeline holds at most one pending
  message, and none when the sending flag is clear; at most one insert awaits its reply,
  and the flag is set exactly while one does; and while the flag is set a further
  \<open>sendMessage\<close> returns at once, with the state unchanged and no insert issued.
\<close>

theorem C9_at_most_one_pending:
  assumes "\<forall>e \<in> set es. backend_ok e"
  shows "length (filter pending (messages (view (run p es (mount p)))))
           \<le> (if sendingMessage (view (run p es (mount p))) then 1 else 0)
       \<and> length (sends (run p es (mount p))) \<le> 1
       \<and> (sendingMessage (view (run p es (mount p))) \<longleftrightarrow> sends (run p es (mount p)) \<noteq> [])
       \<and> (sendingMessage (view (run p es (mount p))) \<longrightarrow>
            sendMessage_begin p now isoNow (view (run p es (mount p)))
              = (view (run p es (mount p)), None))"
proof -
  have i: "thread_inv (run p es (mount p))"
    using mount_inv assms by (rule run_inv)
  then have "\<not> sendingMessage (view (run p es (mount p))) \<longrightarrow>
      (\<forall>m \<in> set (messages (view (run p es (mount p)))). \<not> pending m)"
    by (auto simp: thread_inv_def)
  then have "\<not> sendingMessage (view (run p es (mount p))) \<longrightarrow>
      filter pending (messages (view (run p es (mount p)))) = []"
    by (simp add: no_pending_filter)
  moreover have "sendingMessage (view (run p es (mount p))) \<longrightarrow>
      sendMessage_begin p now isoNow (view (run p es (mount p)))
        = (view (run p es (mount p)), None)"
    by (simp add: sendMessage_begin_def Let_def)
  ultimately show ?thesis
    using i by (simp add: thread_inv_def)
qed

theorem C9_at_most_one_pending_witness:
  "list_all backend_ok
     [SelectReply 0 (loaded [demo_m2]), ChangeText ''hi'',
      PressSend 5 ''2024-05-01T10:00:00.000Z'', ChangeText ''again'']
   \<and> view (run demo_params
        [SelectReply 0 (loaded [demo_m2]), ChangeText ''hi'',
         PressSend 5 ''2024-05-01T10:00:00.000Z'', ChangeText ''again''] (mount demo_params))
      = \<lparr>messages = [demo_m2, demo_pending], messageText = ''again'',
         loadingMessages = False, sendingMessage = True, refreshToken = 0, alerts = []\<rparr>
   \<and> length (filter pending [demo_m2, demo_pending]) \<le> 1
   \<and> sendMessage_begin demo_params 9 ''2024-05-01T10:00:09.000Z''
        \<lparr>messages = [demo_m2, demo_pending], messageText = ''again'',
         loadingMessages = False, sendingMessage = True, refreshToken = 0, alerts = []\<rparr>
      = (\<lparr>messages = [demo_m2, demo_pending], messageText = ''again'',
          loadingMessages = False, sendingMessage = True, refreshToken = 0, alerts = []\<rparr>,
         None)"
proof -
  have l: "list_all backend_ok
     [SelectReply 0 (loaded [demo_m2]), ChangeText ''hi'',
      PressSend 5 ''2024-05-01T10:00:00.000Z'', ChangeText ''again'']"
    by simp
  then have h: "\<forall>e \<in> set [SelectReply 0 (loaded [demo_m2]), ChangeText ''hi'',
               PressSend 5 ''2024-05-01T10:00:00.000Z'', ChangeText ''again'']. backend_ok e"
    by (simp only: list_all_iff)
  have v: "view (run demo_params
        [SelectReply 0 (loaded [demo_m2]), ChangeText ''hi'',
         PressSend 5 ''2024-05-01T10:00:00.000Z'', ChangeText ''again''] (mount demo_params))
      = \<lparr>messages = [demo_m2, demo_pending], messageText = ''again'',
         loadingMessages = False, sendingMessage = True, refreshToken = 0, alerts = []\<rparr>"
    by code_simp
  from C9_at_most_one_pending [OF h, of demo_params 9 "''2024-05-01T10:00:09.000Z''"]
  have "length (filter pending [demo_m2, demo_pending]) \<le> 1"
    and "sendMessage_begin demo_params 9 ''2024-05-01T10:00:09.000Z''
        \<lparr>messages = [demo_m2, demo_pending], messageText = ''again'',
         loadingMessages = False, sendingMessage = True, refreshToken = 0, alerts = []\<rparr>
      = (\<lparr>messages = [demo_m2, demo_pending], messageText = ''again'',
          loadingMessages = False, sendingMessage = True, refreshToken = 0, alerts = []\<rparr>,
         None)"
    unfolding v by simp_all
  with l v show ?thesis by (simp only: simp_thms)
qed

section \<open>Resolving the conversation of two users\<close>

lemma shared_sym: "shared_conversations b A B = shared_conversations b B A"
  by (auto simp: shared_conversations_def)

lemma set_select_memberships:
  "set (select_memberships b U) = {c. (c, U) \<in> set (conversation_members b)}"
  by (force simp: select_memberships_def)

lemma set_shared_rows:
  "set (map fst (filter (\<lambda>row. snd row = P \<and> fst row \<in> set (select_memberships b U))
                  (conversation_members b)))
   = shared_conversations b U P"
  by (force simp: set_select_memberships shared_conversations_def)

lemma take1_singleton: "set xs = {c} \<Longrightarrow> take 1 xs = [c]"
  by (cases xs) auto

lemma select_shared_unique:
  assumes "shared_conversations b U P = {c}"
  shows "select_shared b P (select_memberships b U) = [c]"
  unfolding select_shared_def using assms
  by (intro take1_singleton) (simp only: set_shared_rows)

lemma select_shared_hd:
  assumes "select_shared b P (select_memberships b U) = c # rest"
  shows "c \<in> shared_conversations b U P" and "rest = []"
proof -
  let ?xs = "map fst (filter (\<lambda>row. snd row = P \<and> fst row \<in> set (select_memberships b U))
                  (conversation_members b))"
  from assms have t: "take 1 ?xs = c # rest" by (simp add: select_shared_def)
  then have "c \<in> set ?xs" by (cases ?xs) auto
  then show "c \<in> shared_conversations b U P" by (simp only: set_shared_rows)
  from t show "rest = []" by (cases ?xs) auto
qed

lemma select_shared_empty:
  assumes "select_memberships b U = [] \<or> select_shared b P (select_memberships b U) = []"
  shows "shared_conversations b U P = {}"
proof -
  let ?xs = "map fst (filter (\<lambda>row. snd row = P \<and> fst row \<in> set (select_memberships b U))
                  (conversation_members b))"
  from assms have "?xs = []"
  proof
    assume "select_memberships b U = []"
    then show ?thesis by simp
  next
    assume "select_shared b P (select_memberships b U) = []"
    then have "take 1 ?xs = []" by (simp add: select_shared_def)
    then show ?thesis by (cases ?xs) auto
  qed
  then have "set ?xs = {}" by simp
  then show ?thesis by (simp only: set_shared_rows)
qed

lemma resolve_finds:
  assumes "membershipError r = None" and "sharedError r = None"
    and "select_shared b P (select_memberships b U) = [c]"
  shows "openConversation r U P b = (b, Navigate c)"
proof -
  from assms(3) have "select_memberships b U \<noteq> []"
    by (auto simp: select_shared_def)
  with assms show ?thesis
    by (simp add: openConversation_def Let_def)
qed

text \<open>
  The two ways a call can end in navigation: it found the conversation and left the
  tables as they were, or no shared conversation existed and it created one.
\<close>

lemma resolve_cases:
  assumes "openConversation r U P b = (b1, Navigate c)"
  shows "(b1 = b \<and> select_shared b P (select_memberships b U) = [c])
       \<or> (shared_conversations b U P = {}
          \<and> b1 = b\<lparr>conversations := conversations b @ [c],
                  conversation_members := conversation_members b @ [(c, U), (c, P)]\<rparr>)"
proof (cases "select_memberships b U \<noteq> [] \<and> select_shared b P (select_memberships b U) \<noteq> []")
  case True
  then obtain c' rest where sh: "select_shared b P (select_memberships b U) = c' # rest"
    by (cases "select_shared b P (select_memberships b U)") auto
  then have "rest = []" by (rule select_shared_hd)
  with assms True sh show ?thesis
    by (auto simp: openConversation_def Let_def split: option.splits)
next
  case False
  then have e: "shared_conversations b U P = {}"
    by (intro select_shared_empty) auto
  from False assms have "b1 = b\<lparr>conversations := conversations b @ [c],
                  conversation_members := conversation_members b @ [(c, U), (c, P)]\<rparr>"
    by (auto simp: openConversation_def Let_def split: option.splits if_splits list.splits)
  with e show ?thesis by simp
qed

lemma shared_after_create:
  assumes "shared_conversations b U P = {}"
  shows "shared_conversations
           (b\<lparr>conversations := conversations b @ [c],
              conversation_members := conversation_members b @ [(c, U), (c, P)]\<rparr>) U P = {c}"
  using assms by (auto simp: shared_conversations_def)

text \<open>
  C3. After a call that ended in navigation to the conversation \<open>c\<close>, a second call for the
  same two users, whose two selects succeed, navigates to \<open>c\<close> again. It finds \<open>c\<close> by the
  intersection of the memberships: \<open>c\<close> is a conversation that has a membership row of
  each of the two users, and it is what the second select returns. The tables are
  unchanged, so no conversation and no membership row is created, whatever the backend
  would have answered to an insert.
\<close>

theorem C3_resolve_idempotent:
  assumes "openConversation r1 A B b = (b1, Navigate c)"
    and "membershipError r2 = None" and "sharedError r2 = None"
  shows "openConversation r2 A B b1 = (b1, Navigate c)
       \<and> select_shared b1 B (select_memberships b1 A) = [c]
       \<and> (c, A) \<in> set (conversation_members b1)
       \<and> (c, B) \<in> set (conversation_members b1)
       \<and> c \<in> shared_conversations b1 A B"
proof -
  have sel: "select_shared b1 B (select_memberships b1 A) = [c]"
    using resolve_cases [OF assms(1)]
  proof
    assume "b1 = b \<and> select_shared b B (select_memberships b A) = [c]"
    then show ?thesis by simp
  next
    assume "shared_conversations b A B = {}
          \<and> b1 = b\<lparr>conversations := conversations b @ [c],
                  conversation_members := conversation_members b @ [(c, A), (c, B)]\<rparr>"
    then have "shared_conversations b1 A B = {c}"
      using shared_after_create by simp
    then show ?thesis by (rule select_shared_unique)
  qed
  then have sh: "c \<in> shared_conversations b1 A B"
    by (rule select_shared_hd(1))
  then have "(c, A) \<in> set (conversation_members b1)"
    and "(c, B) \<in> set (conversation_members b1)"
    by (simp_all add: shared_conversations_def)
  with sel sh assms(2,3) show ?thesis
    by (simp add: resolve_finds)
qed

theorem C3_resolve_idempotent_witness:
  "openConversation (replies_ok ''c9'') ''u1'' ''u2''
      \<lparr>conversations = [''c1''],
       conversation_members = [(''c1'', ''u1''), (''c1'', ''u3'')]\<rparr>
     = (\<lparr>conversations = [''c1'', ''c9''],
         conversation_members =
           [(''c1'', ''u1''), (''c1'', ''u3''), (''c9'', ''u1''), (''c9'', ''u2'')]\<rparr>,
        Navigate ''c9'')
   \<and> openConversation (replies_ok ''c10'') ''u1'' ''u2''
      \<lparr>conversations = [''c1'', ''c9''],
       conversation_members =
         [(''c1'', ''u1''), (''c1'', ''u3''), (''c9'', ''u1''), (''c9'', ''u2'')]\<rparr>
     = (\<lparr>conversations = [''c1'', ''c9''],
         conversation_members =
           [(''c1'', ''u1''), (''c1'', ''u3''), (''c9'', ''u1''), (''c9'', ''u2'')]\<rparr>,
        Navigate ''c9'')"
proof -
  have first: "openConversation (replies_ok ''c9'') ''u1'' ''u2''
      \<lparr>conversations = [''c1''],
       conversation_members = [(''c1'', ''u1''), (''c1'', ''u3'')]\<rparr>
     = (\<lparr>conversations = [''c1'', ''c9''],
         conversation_members =
           [(''c1'', ''u1''), (''c1'', ''u3''), (''c9'', ''u1''), (''c9'', ''u2'')]\<rparr>,
        Navigate ''c9'')"
    by (simp add: openConversation_def select_memberships_def select_shared_def)
  have m: "membershipError (replies_ok ''c10'') = None"
    and s: "sharedError (replies_ok ''c10'') = None"
    by simp_all
  from C3_resolve_idempotent [OF first m s, THEN conjunct1] first show ?thesis
    by (simp only: simp_thms)
qed

lemma pair_members:
  assumes "two_party b" and "A \<noteq> B" and "c \<in> shared_conversations b A B"
  shows "members_of b c = {A, B}"
proof -
  from assms(3) have sub: "{A, B} \<subseteq> members_of b c"
    by (force simp: shared_conversations_def members_of_def)
  from assms(3) have "c \<in> set (map fst (conversation_members b))"
    by (force simp: shared_conversations_def)
  with assms(1) have "card (members_of b c) \<le> 2" unfolding two_party_def by blast
  moreover have "finite (members_of b c)" by (simp add: members_of_def)
  moreover from assms(2) have "card {A, B} = 2" by simp
  ultimately show ?thesis using sub
    by (metis card_seteq)
qed

lemma shared_unique:
  assumes "two_party b" and "unique_pair b A B" and "A \<noteq> B"
    and "c \<in> shared_conversations b A B"
  shows "shared_conversations b A B = {c}"
proof -
  have "c' = c" if "c' \<in> shared_conversations b A B" for c'
  proof -
    from that assms(4) have in_tab: "c' \<in> set (map fst (conversation_members b))"
      "c \<in> set (map fst (conversation_members b))"
      by (force simp: shared_conversations_def)+
    from that have "members_of b c' = {A, B}" by (rule pair_members [OF assms(1,3)])
    moreover from assms(4) have "members_of b c = {A, B}" by (rule pair_members [OF assms(1,3)])
    ultimately show ?thesis
      using assms(2) in_tab unfolding unique_pair_def by blast
  qed
  with assms(4) show ?thesis by blast
qed

text \<open>
  C4. Let \<open>A\<close> and \<open>B\<close> be distinct, and let the tables keep to the data model: a
  conversation has at most two members, and at most one conversation has the membership
  set \<open>{A, B}\<close>. If the call for \<open>(A, B)\<close> navigates to \<open>c\<close>, then the call for \<open>(B, A)\<close>
  navigates to \<open>c\<close> too and changes nothing. When the first call found \<open>c\<close> the tables are
  the ones it started from, so the two calls agree on one and the same backend state.
\<close>

theorem C4_resolve_commutes:
  assumes "A \<noteq> B" and "two_party b" and "unique_pair b A B"
    and "openConversation r1 A B b = (b1, Navigate c)"
    and "membershipError r2 = None" and "sharedError r2 = None"
  shows "openConversation r2 B A b1 = (b1, Navigate c)"
proof -
  have "shared_conversations b1 A B = {c}"
    using resolve_cases [OF assms(4)]
  proof
    assume f: "b1 = b \<and> select_shared b B (select_memberships b A) = [c]"
    then have "c \<in> shared_conversations b A B" by (intro select_shared_hd(1)) simp
    with assms(1-3) have "shared_conversations b A B = {c}" by (intro shared_unique)
    with f show ?thesis by simp
  next
    assume "shared_conversations b A B = {}
          \<and> b1 = b\<lparr>conversations := conversations b @ [c],
                  conversation_members := conversation_members b @ [(c, A), (c, B)]\<rparr>"
    then show ?thesis using shared_after_create by simp
  qed
  then have "shared_conversations b1 B A = {c}" by (simp only: shared_sym)
  then have "select_shared b1 A (select_memberships b1 B) = [c]" by (rule select_shared_unique)
  with assms(5,6) show ?thesis by (simp add: resolve_finds)
qed

theorem C4_resolve_commutes_witness:
  "two_party \<lparr>conversations = [''c1'', ''c3''],
       conversation_members =
         [(''c1'', ''u1''), (''c3'', ''u2''), (''c1'', ''u2''), (''c3'', ''u3'')]\<rparr>
   \<and> unique_pair \<lparr>conversations = [''c1'', ''c3''],
       conversation_members =
         [(''c1'', ''u1''), (''c3'', ''u2''), (''c1'', ''u2''), (''c3'', ''u3'')]\<rparr> ''u1'' ''u2''
   \<and> openConversation (replies_ok ''c9'') ''u1'' ''u2''
      \<lparr>conversations = [''c1'', ''c3''],
       conversation_members =
         [(''c1'', ''u1''), (''c3'', ''u2''), (''c1'', ''u2''), (''c3'', ''u3'')]\<rparr>
     = (\<lparr>conversations = [''c1'', ''c3''],
         conversation_members =
           [(''c1'', ''u1''), (''c3'', ''u2''), (''c1'', ''u2''), (''c3'', ''u3'')]\<rparr>,
        Navigate ''c1'')
   \<and> openConversation (replies_ok ''c10'') ''u2'' ''u1''
      \<lparr>conversations = [''c1'', ''c3''],
       conversation_members =
         [(''c1'', ''u1''), (''c3'', ''u2''), (''c1'', ''u2''), (''c3'', ''u3'')]\<rparr>
     = (\<lparr>conversations = [''c1'', ''c3''],
         conversation_members =
           [(''c1'', ''u1''), (''c3'', ''u2''), (''c1'', ''u2''), (''c3'', ''u3'')]\<rparr>,
        Navigate ''c1'')"
proof -
  have ne: "''u1'' \<noteq> ''u2''" by simp
  have tp: "two_party \<lparr>conversations = [''c1'', ''c3''],
       conversation_members =
         [(''c1'', ''u1''), (''c3'', ''u2''), (''c1'', ''u2''), (''c3'', ''u3'')]\<rparr>"
    by (simp add: two_party_def members_of_def)
  have up: "unique_pair \<lparr>conversations = [''c1'', ''c3''],
       conversation_members =
         [(''c1'', ''u1''), (''c3'', ''u2''), (''c1'', ''u2''), (''c3'', ''u3'')]\<rparr> ''u1'' ''u2''"
    by (simp add: unique_pair_def members_of_def doubleton_eq_iff)
  have first: "openConversation (replies_ok ''c9'') ''u1'' ''u2''
      \<lparr>conversations = [''c1'', ''c3''],
       conversation_members =
         [(''c1'', ''u1''), (''c3'', ''u2''), (''c1'', ''u2''), (''c3'', ''u3'')]\<rparr>
     = (\<lparr>conversations = [''c1'', ''c3''],
         conversation_members =
           [(''c1'', ''u1''), (''c3'', ''u2''), (''c1'', ''u2''), (''c3'', ''u3'')]\<rparr>,
        Navigate ''c1'')"
    by (simp add: openConversation_def select_memberships_def select_shared_def)
  have m: "membershipError (replies_ok ''c10'') = None"
    and s: "sharedError (replies_ok ''c10'') = None"
    by simp_all
  from C4_resolve_commutes [OF ne tp up first m s] tp up first show ?thesis
    by (simp only: simp_thms)
qed

end
